theory Spec2Isabelle
  imports Main "HOL-Library.Sublist" "HOL-Library.AList"
begin

section \<open>The offline service worker of squiz (src/service-worker.js)\<close>

text \<open>
  The worker is a set of event handlers over services of the host platform: the cache
  storage, one IndexedDB object store, the network, the list of clients and the clock.
  The model passes the platform's state explicitly (record \<open>platform\<close>) and takes the
  network as an oracle: the outcome of the \<open>k\<close>-th fetch the worker issues, given what is
  fetched. Every handler is a function from the state to the new state, together with what
  the handler hands back to the platform. URLs are plain strings, taken as already
  resolved against the worker's origin.
\<close>

subsection \<open>Constants (lines 1-36)\<close>

definition sw_version :: nat where
  "sw_version = 1"

definition idb_version :: nat where
  "idb_version = 1"

definition cache_name :: string where
  \<comment> \<open>the template \<open>web-app-cache-${sw_version}\<close> at \<open>sw_version = 1\<close>\<close>
  "cache_name = ''web-app-cache-1''"

definition static_files :: "string list" where
  "static_files =
     [''/sw-registration.js'', ''/index.html'', ''/about/index.html'', ''/manifest.json'',
      ''/offline.html'', ''/src/img/icons/manifest-icon-192.maskable.png'',
      ''/src/img/icons/manifest-icon-512.maskable.png'']"

definition routes :: "string list" where
  "routes = [''/'', ''/about'']"

definition files_to_cache :: "string list" where
  "files_to_cache = routes @ static_files"

definition requests_to_retry_when_offline :: "string list" where
  "requests_to_retry_when_offline = []"

definition offline_url :: string where
  "offline_url = ''/offline.html''"

definition retry_tag :: string where
  "retry_tag = ''retry-request''"

subsection \<open>Data\<close>

type_synonym header_list = "(string \<times> string) list"

record response =
  status :: nat
  status_text :: string
  response_headers :: header_list
  response_body :: string
  redirected :: bool

text \<open>
  The fields that the worker reads of a \<open>Request\<close> (\<open>req_method\<close> is its \<open>method\<close>).
  The body is absent or a stream; reading a stream yields its bytes or fails.
\<close>

datatype body_stream = Readable string | Errored

record request =
  url :: string
  req_method :: string
  body :: "body_stream option"
  headers :: header_list
  mode :: string
  credentials :: string

text \<open>The object written by \<open>store.add\<close> (lines 135-143); \<open>timestamp\<close> is the key path.\<close>

record queued_request =
  timestamp :: nat
  stored_url :: string
  stored_method :: string
  stored_body :: "string option"
  stored_headers :: header_list
  stored_mode :: string
  stored_credentials :: string

text \<open>The arguments of the replay \<open>fetch(url, { method, headers, body, mode, credentials })\<close>.\<close>

record fetch_init =
  init_url :: string
  init_method :: string
  init_headers :: header_list
  init_body :: "string option"
  init_mode :: string
  init_credentials :: string

text \<open>
  What the worker asks of the network: the live fetch of an intercepted request (line 303),
  the replay of a queued record (line 209), and the \<open>no-cache\<close> request of a file by
  \<open>cache.addAll\<close> (lines 238-242).
\<close>

datatype net_call = Live request | Replay fetch_init | Precache string

text \<open>A fetch promise rejects, or fulfils with a value that the code tests for truthiness (line 304).\<close>

datatype fetch_outcome = Throws | Resolves "response option"

type_synonym network = "nat \<Rightarrow> net_call \<Rightarrow> fetch_outcome"

text \<open>
  How a promise of the worker ends. \<open>settled\<close> is for the promises that always settle;
  \<open>promise\<close> adds the promise that never settles, which is what \<open>open_store\<close> hands back
  when the object store is missing (see below), and carries the value of a fulfilment.
\<close>

datatype settled = Fulfilled | Rejected

datatype 'a promise = Settles 'a | Fails | Hangs

text \<open>
  The database \<open>web-app-db\<close>: not created yet, created at version 1 without the object store
  \<open>request-store\<close>, or holding the store with its records.
\<close>

datatype database = No_database | No_store | Has_store "queued_request list"

datatype lifecycle_call = SkipWaiting | ClientsClaim

record client =
  client_id :: nat
  controlled :: bool

type_synonym cache = "(string \<times> response) list"

record platform =
  on_line :: bool
  now :: nat
  cache_storage :: "(string \<times> cache) list"
  idb_up :: bool
  idb :: database
  sync_supported :: bool
  sync_tags :: "string list"
  clients :: "client list"
  net_log :: "net_call list"
  lifecycle_log :: "lifecycle_call list"

text \<open>
  \<open>idb_up\<close> says whether \<open>indexedDB.open\<close> succeeds (\<open>request.onsuccess\<close>) or fails
  (\<open>request.onerror\<close>, lines 68 and 103); \<open>idb\<close> is the database it opens. \<open>net_log\<close> lists
  every fetch the worker has issued, oldest first; \<open>lifecycle_log\<close> the calls of
  \<open>skipWaiting\<close> and \<open>clients.claim\<close>.
\<close>

text \<open>The records of the object store \<open>request-store\<close>; without the store there are none.\<close>

definition request_store :: "platform \<Rightarrow> queued_request list" where
  "request_store s = (case idb s of Has_store records \<Rightarrow> records | _ \<Rightarrow> [])"

definition store_created :: "platform \<Rightarrow> bool" where
  "store_created s = (case idb s of Has_store records \<Rightarrow> True | _ \<Rightarrow> False)"

subsection \<open>Platform services\<close>

text \<open>\<open>String.prototype.includes\<close>: the second string occurs in the first.\<close>

fun str_includes :: "string \<Rightarrow> string \<Rightarrow> bool" where
  "str_includes [] sub = (sub = [])"
| "str_includes (c # cs) sub = (prefix sub (c # cs) \<or> str_includes cs sub)"

definition fulfilled :: "fetch_outcome \<Rightarrow> bool" where
  "fulfilled out = (case out of Throws \<Rightarrow> False | Resolves _ \<Rightarrow> True)"

definition ok :: "response \<Rightarrow> bool" where
  "ok r = (200 \<le> status r \<and> status r \<le> 299)"

text \<open>Issuing a fetch: the request is logged and the oracle gives its outcome.\<close>

definition fetch :: "network \<Rightarrow> net_call \<Rightarrow> platform \<Rightarrow> fetch_outcome \<times> platform" where
  "fetch net c s = (net (length (net_log s)) c, s\<lparr>net_log := net_log s @ [c]\<rparr>)"

text \<open>
  The object store is keyed by \<open>timestamp\<close>: \<open>add\<close> fails when the key is taken,
  \<open>delete\<close> removes the record of a key and is silent when there is none. The list holds
  the records in the order of their addition, which is the order of their keys as long as
  the clock does not go back; the worker never relies on the order.
\<close>

definition idb_add :: "queued_request \<Rightarrow> queued_request list \<Rightarrow> queued_request list option" where
  "idb_add r rs = (if timestamp r \<in> set (map timestamp rs) then None else Some (rs @ [r]))"

definition idb_delete :: "nat \<Rightarrow> queued_request list \<Rightarrow> queued_request list" where
  "idb_delete k rs = filter (\<lambda>r. timestamp r \<noteq> k) rs"

definition store_wf :: "platform \<Rightarrow> bool" where
  "store_wf s = distinct (map timestamp (request_store s))"

text \<open>The cache storage maps names to caches, a cache maps URLs (of GET requests) to responses.\<close>

definition caches_keys :: "platform \<Rightarrow> string list" where
  "caches_keys s = map fst (cache_storage s)"

definition caches_open :: "string \<Rightarrow> platform \<Rightarrow> platform" where
  "caches_open name s =
     (if name \<in> set (caches_keys s) then s
      else s\<lparr>cache_storage := cache_storage s @ [(name, [])]\<rparr>)"

definition caches_delete :: "string \<Rightarrow> platform \<Rightarrow> platform" where
  "caches_delete name s = s\<lparr>cache_storage := filter (\<lambda>(n, c). n \<noteq> name) (cache_storage s)\<rparr>"

definition cache_of :: "platform \<Rightarrow> string \<Rightarrow> cache" where
  "cache_of s name = (case map_of (cache_storage s) name of None \<Rightarrow> [] | Some c \<Rightarrow> c)"

definition cache_keys :: "platform \<Rightarrow> string \<Rightarrow> string list" where
  "cache_keys s name = map fst (cache_of s name)"

definition cache_match :: "platform \<Rightarrow> string \<Rightarrow> string \<Rightarrow> response option" where
  "cache_match s name u = map_of (cache_of s name) u"

text \<open>\<open>cache.put\<close> replaces the entry of the URL, if any, by the new one.\<close>

definition put_entry :: "string \<Rightarrow> response \<Rightarrow> cache \<Rightarrow> cache" where
  "put_entry u r c = filter (\<lambda>(k, v). k \<noteq> u) c @ [(u, r)]"

definition cache_put :: "string \<Rightarrow> string \<Rightarrow> response \<Rightarrow> platform \<Rightarrow> platform" where
  "cache_put name u r s =
     s\<lparr>cache_storage :=
         map (\<lambda>(n, c). if n = name then (n, put_entry u r c) else (n, c)) (cache_storage s)\<rparr>"

definition url_without_search :: "string \<Rightarrow> string" where
  "url_without_search u = takeWhile (\<lambda>c. c \<noteq> CHR ''?'') u"

text \<open>
  \<open>caches.match(url)\<close> searches the caches in order of creation for the URL;
  \<open>caches.match(request, { ignoreVary: true, ignoreSearch: true })\<close> compares the URLs
  without their query strings, and matches GET requests only.
\<close>

definition caches_match_url :: "platform \<Rightarrow> string \<Rightarrow> response option" where
  "caches_match_url s u =
     map_option snd (find (\<lambda>(k, v). k = u) (concat (map snd (cache_storage s))))"

definition caches_match_request :: "platform \<Rightarrow> request \<Rightarrow> response option" where
  "caches_match_request s req =
     (if req_method req \<noteq> ''GET'' then None
      else map_option snd
             (find (\<lambda>(k, v). url_without_search k = url_without_search (url req))
                (concat (map snd (cache_storage s)))))"

text \<open>\<open>clients.matchAll\<close>: every client of the origin, or only the controlled ones.\<close>

definition clients_matchAll :: "bool \<Rightarrow> platform \<Rightarrow> client list" where
  "clients_matchAll includeUncontrolled s =
     (if includeUncontrolled then clients s else filter controlled (clients s))"

subsection \<open>Classification (lines 38-49)\<close>

definition is_offline :: "platform \<Rightarrow> bool" where
  "is_offline s = (\<not> on_line s)"

definition is_request_eligible_for_retry :: "request \<Rightarrow> bool" where
  "is_request_eligible_for_retry req =
     (req_method req \<in> set [''POST'', ''PUT'', ''DELETE'']
      \<or> url req \<in> set requests_to_retry_when_offline)"

subsection \<open>The request store (lines 51-150, 192-228)\<close>

text \<open>
  \<open>create_indexed_db\<close> (lines 51-70) opens the database at version 1. Only when the
  database does not exist yet does \<open>onupgradeneeded\<close> fire and create the object store; a
  database that is already at version 1 is opened as it is, with or without the store.
\<close>

definition create_indexed_db :: "platform \<Rightarrow> settled \<times> platform" where
  "create_indexed_db s =
     (if \<not> idb_up s then (Rejected, s)
      else (case idb s of
              No_database \<Rightarrow> (Fulfilled, s\<lparr>idb := Has_store []\<rparr>)
            | No_store \<Rightarrow> (Fulfilled, s)
            | Has_store records \<Rightarrow> (Fulfilled, s)))"

text \<open>
  \<open>open_store\<close> (\<open>get_store_factory\<close>, lines 72-107) opens the database at version 1 too, but
  sets no \<open>onupgradeneeded\<close>: a database that does not exist is created without the object
  store. In \<open>onsuccess\<close>, \<open>db.transaction(name, mode)\<close> throws when the store is missing; the
  exception leaves the event handler, \<open>resolve\<close> and \<open>reject\<close> are never called, and the
  promise never settles. \<open>onerror\<close> rejects it.
\<close>

definition open_store :: "platform \<Rightarrow> queued_request list promise \<times> platform" where
  "open_store s =
     (if \<not> idb_up s then (Fails, s)
      else (case idb s of
              No_database \<Rightarrow> (Hangs, s\<lparr>idb := No_store\<rparr>)
            | No_store \<Rightarrow> (Hangs, s)
            | Has_store records \<Rightarrow> (Settles records, s)))"

text \<open>\<open>Object.fromEntries\<close>: a later entry of a name replaces the value of an earlier one.\<close>

definition serialize_headers :: "header_list \<Rightarrow> header_list" where
  "serialize_headers hs = fold (\<lambda>(k, v). AList.update k v) hs []"

text \<open>Lines 125-130: a stream body is read into a buffer, which may fail.\<close>

definition read_body :: "body_stream option \<Rightarrow> string option option" where
  "read_body b =
     (case b of
        None \<Rightarrow> Some None
      | Some (Readable bytes) \<Rightarrow> Some (Some bytes)
      | Some Errored \<Rightarrow> None)"

definition make_record :: "nat \<Rightarrow> request \<Rightarrow> string option \<Rightarrow> queued_request" where
  "make_record t req b =
     \<lparr>timestamp = t, stored_url = url req, stored_method = req_method req, stored_body = b,
      stored_headers = serialize_headers (headers req), stored_mode = mode req,
      stored_credentials = credentials req\<rparr>"

text \<open>
  \<open>store_request\<close>: everything inside the \<open>try\<close> that fails is caught by the empty
  \<open>catch\<close> (line 149), and the function returns normally. When \<open>open_store\<close> never settles,
  the \<open>await\<close> of line 133 never resumes and neither does \<open>store_request\<close>. The timestamp
  is taken (line 132) before the store is opened.
\<close>

definition store_request :: "request \<Rightarrow> platform \<Rightarrow> unit promise \<times> platform" where
  "store_request req s =
     (case read_body (body req) of
        None \<Rightarrow> (Settles (), s)
      | Some stored \<Rightarrow>
          (case open_store s of
             (Fails, s') \<Rightarrow> (Settles (), s')
           | (Hangs, s') \<Rightarrow> (Hangs, s')
           | (Settles records, s') \<Rightarrow>
               (case idb_add (make_record (now s) req stored) records of
                  None \<Rightarrow> (Settles (), s')
                | Some records' \<Rightarrow>
                    (let s'' = s'\<lparr>idb := Has_store records'\<rparr>
                     in (Settles (),
                         if sync_supported s''
                         then s''\<lparr>sync_tags := List.insert retry_tag (sync_tags s'')\<rparr>
                         else s'')))))"

text \<open>
  \<open>get_requests\<close> (lines 193-200) returns the records, or the error object that its
  \<open>catch\<close> returns (\<open>None\<close>), or never returns.
\<close>

definition get_requests :: "platform \<Rightarrow> queued_request list option promise \<times> platform" where
  "get_requests s =
     (case open_store s of
        (Settles records, s') \<Rightarrow> (Settles (Some records), s')
      | (Fails, s') \<Rightarrow> (Settles None, s')
      | (Hangs, s') \<Rightarrow> (Hangs, s'))"

definition replay_of :: "queued_request \<Rightarrow> fetch_init" where
  "replay_of r =
     \<lparr>init_url = stored_url r, init_method = stored_method r, init_headers = stored_headers r,
      init_body = stored_body r, init_mode = stored_mode r,
      init_credentials = stored_credentials r\<rparr>"

text \<open>Lines 205-211: the replays are issued one after the other, none is awaited yet.\<close>

fun issue_all :: "network \<Rightarrow> net_call list \<Rightarrow> platform \<Rightarrow> fetch_outcome list \<times> platform" where
  "issue_all net [] s = ([], s)"
| "issue_all net (c # cs) s =
     (let (out, s') = fetch net c s;
          (outs, s'') = issue_all net cs s'
      in (out # outs, s''))"

text \<open>
  Lines 220-227: \<open>responses\<close> is as long as \<open>reqs\<close>, so \<open>reqs[index]\<close> is the record
  the response belongs to.
\<close>

fun delete_fulfilled :: "(fetch_outcome \<times> queued_request) list \<Rightarrow> queued_request list \<Rightarrow> queued_request list" where
  "delete_fulfilled [] records = records"
| "delete_fulfilled ((response, r) # rest) records =
     delete_fulfilled rest
       (if fulfilled response then idb_delete (timestamp r) records else records)"

text \<open>
  \<open>retry_requests\<close>: when \<open>get_requests\<close> hands back the error, \<open>reqs.map\<close> is not a
  function and the promise rejects before any replay; the same when the store cannot be
  opened for the deletions (line 214). When \<open>get_requests\<close> or the second \<open>open_store\<close>
  never returns, neither does \<open>retry_requests\<close>.
\<close>

definition retry_requests :: "network \<Rightarrow> platform \<Rightarrow> unit promise \<times> platform" where
  "retry_requests net s =
     (case get_requests s of
        (Hangs, s0) \<Rightarrow> (Hangs, s0)
      | (Fails, s0) \<Rightarrow> (Fails, s0)
      | (Settles None, s0) \<Rightarrow> (Fails, s0)
      | (Settles (Some reqs), s0) \<Rightarrow>
          (let (responses, s') = issue_all net (map (\<lambda>r. Replay (replay_of r)) reqs) s0
           in case open_store s' of
                (Hangs, s'') \<Rightarrow> (Hangs, s'')
              | (Fails, s'') \<Rightarrow> (Fails, s'')
              | (Settles records, s'') \<Rightarrow>
                  (Settles (),
                   s''\<lparr>idb := Has_store (delete_fulfilled (zip responses reqs) records)\<rparr>)))"

subsection \<open>The caches (lines 152-190)\<close>

record cache_storage_names =
  latestCacheName :: "string option"
  outdatedCacheNames :: "string list"

definition get_cache_storage_names :: "platform \<Rightarrow> cache_storage_names" where
  "get_cache_storage_names s =
     (let cache_names = caches_keys s
      in \<lparr>latestCacheName = find (\<lambda>name. str_includes name cache_name) cache_names,
          outdatedCacheNames = filter (\<lambda>name. \<not> str_includes name cache_name) cache_names\<rparr>)"

text \<open>
  The inner loop (lines 184-188): \<open>latest_cache.match(entry)\<close> is read from the store at
  each turn; on no match, \<open>.clone()\<close> of \<open>undefined\<close> throws and the function rejects
  where it stands.
\<close>

fun copy_entries :: "string \<Rightarrow> string \<Rightarrow> string list \<Rightarrow> platform \<Rightarrow> settled \<times> platform" where
  "copy_entries latest outdated [] s = (Fulfilled, s)"
| "copy_entries latest outdated (entry # entries) s =
     (case cache_match s latest entry of
        None \<Rightarrow> (Rejected, s)
      | Some latest_cache_response \<Rightarrow>
          copy_entries latest outdated entries (cache_put outdated entry latest_cache_response s))"

fun copy_to_outdated :: "string \<Rightarrow> string list \<Rightarrow> string list \<Rightarrow> platform \<Rightarrow> settled \<times> platform" where
  "copy_to_outdated latest [] entries s = (Fulfilled, s)"
| "copy_to_outdated latest (outdated_cache_name # names) entries s =
     (case copy_entries latest outdated_cache_name entries (caches_open outdated_cache_name s) of
        (Rejected, s') \<Rightarrow> (Rejected, s')
      | (Fulfilled, s') \<Rightarrow> copy_to_outdated latest names entries s')"

definition update_last_cache :: "platform \<Rightarrow> settled \<times> platform" where
  "update_last_cache s =
     (let names = get_cache_storage_names s
      in case latestCacheName names of
           None \<Rightarrow> (Fulfilled, s)
         | Some latest \<Rightarrow>
             if latest = [] \<or> outdatedCacheNames names = [] then (Fulfilled, s)
             else (let s' = caches_open latest s;
                       latest_cache_entries = cache_keys s' latest
                   in copy_to_outdated latest (outdatedCacheNames names) latest_cache_entries s'))"

subsection \<open>Install and activate (lines 230-263)\<close>

text \<open>
  \<open>cache.addAll\<close>: every file is requested; if one request fails or one response is not
  \<open>ok\<close> nothing is written and the promise rejects, otherwise every response is put.
\<close>

fun put_all :: "string \<Rightarrow> (string \<times> fetch_outcome) list \<Rightarrow> platform \<Rightarrow> platform" where
  "put_all name [] s = s"
| "put_all name ((u, out) # rest) s =
     put_all name rest
       (case out of Resolves (Some r) \<Rightarrow> cache_put name u r s | _ \<Rightarrow> s)"

definition precached :: "fetch_outcome \<Rightarrow> bool" where
  "precached out = (case out of Resolves (Some r) \<Rightarrow> ok r | _ \<Rightarrow> False)"

definition cache_addAll :: "network \<Rightarrow> string \<Rightarrow> string list \<Rightarrow> platform \<Rightarrow> settled \<times> platform" where
  "cache_addAll net name files s =
     (let (outs, s') = issue_all net (map Precache files) s
      in if list_all precached outs then (Fulfilled, put_all name (zip files outs) s')
         else (Rejected, s'))"

text \<open>
  \<open>install_handler\<close>: both members of the \<open>Promise.all\<close> are started; the \<open>catch\<close> turns
  a rejection of either into a fulfilled promise, which is what \<open>waitUntil\<close> receives.
\<close>

definition install_handler :: "network \<Rightarrow> platform \<Rightarrow> settled \<times> platform" where
  "install_handler net s =
     (let (populated, s1) = cache_addAll net cache_name files_to_cache (caches_open cache_name s);
          (created, s2) = create_indexed_db s1
      in (Fulfilled, s2))"

definition activate_handler :: "platform \<Rightarrow> platform" where
  "activate_handler s =
     fold caches_delete (filter (\<lambda>name. name \<noteq> cache_name) (caches_keys s)) s"

subsection \<open>The fetch handler (lines 265-313)\<close>

definition clean_redirect :: "response \<Rightarrow> response" where
  "clean_redirect r = r\<lparr>redirected := False\<rparr>"

text \<open>
  The promise handed to \<open>respondWith\<close>. \<open>Settles None\<close> is \<open>undefined\<close>, for which the
  platform answers the page with a network error; \<open>Hangs\<close> is the promise that never
  settles, for which the page is never answered. \<open>store_request\<close> never rejects.
\<close>

definition fetch_handler :: "network \<Rightarrow> request \<Rightarrow> platform \<Rightarrow> response option promise \<times> platform" where
  "fetch_handler net req s =
     (if is_offline s \<and> is_request_eligible_for_retry req
      then (case store_request req s of
              (Hangs, s') \<Rightarrow> (Hangs, s')
            | (_, s') \<Rightarrow> (Settles (caches_match_url s' offline_url), s'))
      else (case caches_match_request s req of
              Some r \<Rightarrow> (Settles (Some (if redirected r then clean_redirect r else r)), s)
            | None \<Rightarrow>
                (case fetch net (Live req) s of
                   (Resolves (Some fetch_response), s') \<Rightarrow> (Settles (Some fetch_response), s')
                 | (Resolves None, s') \<Rightarrow> (Settles None, s')
                 | (Throws, s') \<Rightarrow> (Settles (caches_match_url s' offline_url), s'))))"

subsection \<open>Messages and sync (lines 315-361)\<close>

definition message_handler :: "network \<Rightarrow> string \<Rightarrow> platform \<Rightarrow> platform" where
  "message_handler net type s =
     (if type = ''SKIP_WAITING''
      then (if length (clients_matchAll True s) < 2
            then s\<lparr>lifecycle_log := lifecycle_log s @ [SkipWaiting, ClientsClaim]\<rparr>
            else s)
      else if type = ''PREPARE_CACHES_FOR_UPDATE'' then snd (update_last_cache s)
      else if type = ''retry-requests''
      then (if \<not> sync_supported s then snd (retry_requests net s) else s)
      else s)"

definition sync_handler :: "network \<Rightarrow> string \<Rightarrow> platform \<Rightarrow> platform" where
  "sync_handler net tag s = (if tag = retry_tag then snd (retry_requests net s) else s)"

subsection \<open>Events (lines 363-367)\<close>

text \<open>
  The five events the worker listens to, and the changes of the platform that happen
  between them: time passes, connectivity comes and goes, the database becomes available or
  not, clients open and close. A handler whose promise never settles does not stop the
  worker: what it did before is done, and the next event is handled.
\<close>

datatype event =
    Install
  | Activate
  | Fetch request
  | Message string
  | Sync string
  | Tick nat
  | Connectivity bool
  | Database bool
  | Clients "client list"

fun handle :: "network \<Rightarrow> event \<Rightarrow> platform \<Rightarrow> platform" where
  "handle net Install s = snd (install_handler net s)"
| "handle net Activate s = activate_handler s"
| "handle net (Fetch req) s = snd (fetch_handler net req s)"
| "handle net (Message type) s = message_handler net type s"
| "handle net (Sync tag) s = sync_handler net tag s"
| "handle net (Tick n) s = s\<lparr>now := now s + n\<rparr>"
| "handle net (Connectivity b) s = s\<lparr>on_line := b\<rparr>"
| "handle net (Database b) s = s\<lparr>idb_up := b\<rparr>"
| "handle net (Clients cs) s = s\<lparr>clients := cs\<rparr>"

fun run :: "network \<Rightarrow> event list \<Rightarrow> platform \<Rightarrow> platform" where
  "run net [] s = s"
| "run net (e # es) s = run net es (handle net e s)"

subsection \<open>Predicates used in the statements\<close>



definition cached_urls :: "platform \<Rightarrow> string set" where
  "cached_urls s = set (map fst (concat (map snd (cache_storage s))))"

text \<open>
  What is left of the records \<open>reqs\<close> once their replays, issued from position \<open>n\<close> of
  the log on, have settled: the records whose own replay did not fulfil.
\<close>

definition unsettled :: "network \<Rightarrow> nat \<Rightarrow> queued_request list \<Rightarrow> queued_request list" where
  "unsettled net n reqs =
     map snd (filter (\<lambda>(k, r). \<not> fulfilled (net k (Replay (replay_of r)))) (enumerate n reqs))"

subsection \<open>Concrete platforms, requests and networks\<close>

definition dead_network :: network where
  "dead_network k c = Throws"

definition offline_page :: response where
  "offline_page =
     \<lparr>status = 200, status_text = ''OK'', response_headers = [],
      response_body = ''You are offline'', redirected = False\<rparr>"

definition submit_request :: request where
  "submit_request =
     \<lparr>url = ''/submit'', req_method = ''POST'', body = Some (Readable ''answer=42''),
      headers = [(''content-type'', ''text/plain'')], mode = ''cors'',
      credentials = ''same-origin''\<rparr>"

definition vote_request :: request where
  "vote_request =
     \<lparr>url = ''/vote'', req_method = ''PUT'', body = None, headers = [],
      mode = ''cors'', credentials = ''same-origin''\<rparr>"

definition quiz_request :: request where
  "quiz_request =
     \<lparr>url = ''/api/quiz?id=7'', req_method = ''GET'', body = None, headers = [],
      mode = ''cors'', credentials = ''same-origin''\<rparr>"

definition offline_platform :: platform where
  "offline_platform =
     \<lparr>on_line = False, now = 1000, cache_storage = [(cache_name, [(offline_url, offline_page)])],
      idb_up = True, idb = Has_store [], sync_supported = True, sync_tags = [],
      clients = [], net_log = [], lifecycle_log = []\<rparr>"

definition two_tabs :: "client list" where
  "two_tabs = [\<lparr>client_id = 1, controlled = True\<rparr>, \<lparr>client_id = 2, controlled = False\<rparr>]"


definition empty_network :: network where
  "empty_network k c = Resolves None"

definition suffixed_platform :: platform where
  "suffixed_platform =
     offline_platform\<lparr>cache_storage := [(''web-app-cache-10'', [(offline_url, offline_page)])]\<rparr>"

definition server_error :: response where
  "server_error =
     \<lparr>status = 500, status_text = ''Internal Server Error'', response_headers = [],
      response_body = [], redirected = False\<rparr>"

text \<open>A network whose first fetch throws and whose later fetches are answered with status 500.\<close>

definition flaky_network :: network where
  "flaky_network k c = (if k = 0 then Throws else Resolves (Some server_error))"

definition queued_platform :: platform where
  "queued_platform =
     offline_platform\<lparr>on_line := True,
       idb := Has_store [make_record 1000 submit_request (Some ''answer=42''),
                         make_record 2000 vote_request None]\<rparr>"

definition saved_response :: response where
  "saved_response =
     \<lparr>status = 200, status_text = ''OK'', response_headers = [],
      response_body = ''saved'', redirected = False\<rparr>"

text \<open>A network whose first fetch throws and whose later fetches succeed.\<close>

definition recovering_network :: network where
  "recovering_network k c = (if k = 0 then Throws else Resolves (Some saved_response))"

definition fresh_index :: response where
  "fresh_index =
     \<lparr>status = 200, status_text = ''OK'', response_headers = [],
      response_body = ''index v2'', redirected = False\<rparr>"

definition stale_index :: response where
  "stale_index =
     \<lparr>status = 200, status_text = ''OK'', response_headers = [],
      response_body = ''index v1'', redirected = False\<rparr>"

definition about_page :: response where
  "about_page =
     \<lparr>status = 200, status_text = ''OK'', response_headers = [],
      response_body = ''about v2'', redirected = False\<rparr>"

definition old_style :: response where
  "old_style =
     \<lparr>status = 200, status_text = ''OK'', response_headers = [],
      response_body = ''style v1'', redirected = False\<rparr>"

text \<open>An outdated snapshot with the entries A and C, the current one with A and B.\<close>

definition migrating_platform :: platform where
  "migrating_platform =
     offline_platform\<lparr>cache_storage :=
       [(''web-app-cache-0'', [(''/index.html'', stale_index), (''/old.css'', old_style)]),
        (cache_name, [(''/index.html'', fresh_index), (''/about'', about_page)])]\<rparr>"




section \<open>Properties\<close>
subsection \<open>Activation\<close>

lemma fold_caches_delete:
  "fold caches_delete ns s = s\<lparr>cache_storage := filter (\<lambda>(n, c). n \<notin> set ns) (cache_storage s)\<rparr>"
proof (induction ns arbitrary: s)
  case Nil
  then show ?case by simp
next
  case (Cons n ns)
  have "filter (\<lambda>(m, c). m \<notin> set ns) (filter (\<lambda>(m, c). m \<noteq> n) (cache_storage s))
        = filter (\<lambda>(m, c). m \<notin> set (n # ns)) (cache_storage s)"
    by (auto intro: filter_cong)
  with Cons show ?case by (simp add: caches_delete_def)
qed

lemma cache_storage_activate:
  "cache_storage (activate_handler s) = filter (\<lambda>(n, c). n = cache_name) (cache_storage s)"
proof -
  have "filter (\<lambda>(n, c). n \<notin> set (filter (\<lambda>name. name \<noteq> cache_name) (caches_keys s))) (cache_storage s)
        = filter (\<lambda>(n, c). n = cache_name) (cache_storage s)"
    by (rule filter_cong) (force simp: caches_keys_def)+
  then show ?thesis by (simp add: activate_handler_def fold_caches_delete)
qed

lemma activate_handler_eq:
  "activate_handler s = s\<lparr>cache_storage := filter (\<lambda>(n, c). n = cache_name) (cache_storage s)\<rparr>"
  using cache_storage_activate [of s]
  by (simp add: activate_handler_def fold_caches_delete)

lemma caches_keys_activate:
  "caches_keys (activate_handler s) = filter (\<lambda>name. name = cache_name) (caches_keys s)"
  by (simp add: caches_keys_def cache_storage_activate filter_map comp_def case_prod_unfold)

text \<open>
  C8. The cleanup of the activate handler is idempotent: a second run changes nothing, and
  after one run the snapshots left are exactly those named \<open>cache_name\<close>.
\<close>

theorem activate_handler_idempotent:
  "activate_handler (activate_handler s) = activate_handler s
   \<and> caches_keys (activate_handler s) = filter (\<lambda>name. name = cache_name) (caches_keys s)"
proof
  have "filter (\<lambda>(n, c). n = cache_name) (filter (\<lambda>(n, c). n = cache_name) (cache_storage s))
        = filter (\<lambda>(n, c). n = cache_name) (cache_storage s)"
    by simp
  then show "activate_handler (activate_handler s) = activate_handler s"
    by (simp add: activate_handler_eq)
  show "caches_keys (activate_handler s) = filter (\<lambda>name. name = cache_name) (caches_keys s)"
    by (rule caches_keys_activate)
qed

theorem activate_handler_idempotent_witness:
  "caches_keys (activate_handler (activate_handler
      (offline_platform\<lparr>cache_storage :=
         [(''web-app-cache-0'', []), (cache_name, []), (''web-app-cache-10'', [])]\<rparr>)))
   = [cache_name]"
  using activate_handler_idempotent
    [of "offline_platform\<lparr>cache_storage :=
         [(''web-app-cache-0'', []), (cache_name, []), (''web-app-cache-10'', [])]\<rparr>"]
  by (simp add: caches_keys_def cache_name_def)
subsection \<open>Control handoff\<close>

text \<open>
  C5, as the claim states it, fails: with one controlled and one uncontrolled client open,
  at most one controlled client exists, and \<open>SKIP_WAITING\<close> forces nothing, since
  \<open>matchAll\<close> is asked for the uncontrolled clients too.
\<close>

theorem skip_waiting_controlled_counterexample:
  "length (filter controlled (clients (offline_platform\<lparr>clients := two_tabs\<rparr>))) \<le> 1
   \<and> lifecycle_log (message_handler dead_network ''SKIP_WAITING''
        (offline_platform\<lparr>clients := two_tabs\<rparr>)) = []"
  by (simp add: message_handler_def clients_matchAll_def two_tabs_def offline_platform_def)

text \<open>
  C5, amended. On \<open>SKIP_WAITING\<close> the worker calls \<open>skipWaiting\<close> and then
  \<open>clients.claim\<close> if and only if fewer than two clients of the origin are open,
  controlled or not; with two or more controlled clients it changes nothing.
\<close>

theorem skip_waiting_iff_few_clients:
  "lifecycle_log (message_handler net ''SKIP_WAITING'' s)
     = (if length (clients s) \<le> 1 then lifecycle_log s @ [SkipWaiting, ClientsClaim]
        else lifecycle_log s)
   \<and> (2 \<le> length (filter controlled (clients s)) \<longrightarrow> message_handler net ''SKIP_WAITING'' s = s)"
proof (intro conjI impI)
  show "lifecycle_log (message_handler net ''SKIP_WAITING'' s)
     = (if length (clients s) \<le> 1 then lifecycle_log s @ [SkipWaiting, ClientsClaim]
        else lifecycle_log s)"
    by (auto simp: message_handler_def clients_matchAll_def)
next
  assume two: "2 \<le> length (filter controlled (clients s))"
  have "length (filter controlled (clients s)) \<le> length (clients s)"
    by (rule length_filter_le)
  with two have "\<not> length (clients s) < 2"
    by linarith
  then show "message_handler net ''SKIP_WAITING'' s = s"
    by (simp add: message_handler_def clients_matchAll_def)
qed

theorem skip_waiting_iff_few_clients_witness:
  "lifecycle_log (message_handler dead_network ''SKIP_WAITING''
      (offline_platform\<lparr>clients := [\<lparr>client_id = 1, controlled = True\<rparr>]\<rparr>))
     = [SkipWaiting, ClientsClaim]
   \<and> message_handler dead_network ''SKIP_WAITING''
       (offline_platform\<lparr>clients :=
          [\<lparr>client_id = 1, controlled = True\<rparr>, \<lparr>client_id = 2, controlled = True\<rparr>]\<rparr>)
     = offline_platform\<lparr>clients :=
          [\<lparr>client_id = 1, controlled = True\<rparr>, \<lparr>client_id = 2, controlled = True\<rparr>]\<rparr>"
  using skip_waiting_iff_few_clients
      [of dead_network "offline_platform\<lparr>clients := [\<lparr>client_id = 1, controlled = True\<rparr>]\<rparr>"]
    skip_waiting_iff_few_clients
      [of dead_network "offline_platform\<lparr>clients :=
          [\<lparr>client_id = 1, controlled = True\<rparr>, \<lparr>client_id = 2, controlled = True\<rparr>]\<rparr>"]
  by (simp add: offline_platform_def)
subsection \<open>The two readings of "current"\<close>

lemma str_includes_sublist:
  "str_includes name sub = sublist sub name"
  by (induction name) (simp_all add: sublist_Cons_right)

text \<open>
  C10. \<open>get_cache_storage_names\<close> reports as latest a cache whose name contains
  \<open>cache_name\<close>, the activate handler keeps only the caches named \<open>cache_name\<close>; so a
  cache reported as latest under another name is deleted on activation, and there is such a
  state, for instance with the single cache \<open>web-app-cache-10\<close>.
\<close>

theorem latest_cache_deleted_on_activate:
  "(latestCacheName (get_cache_storage_names s) = Some n
      \<longrightarrow> str_includes n cache_name \<and> n \<in> set (caches_keys s))
   \<and> (n \<noteq> cache_name \<longrightarrow> n \<notin> set (caches_keys (activate_handler s)))
   \<and> (\<exists>s' n'. latestCacheName (get_cache_storage_names s') = Some n'
          \<and> n' \<in> set (caches_keys s') \<and> n' \<notin> set (caches_keys (activate_handler s')))"
proof (intro conjI impI)
  assume "latestCacheName (get_cache_storage_names s) = Some n"
  then have "find (\<lambda>name. str_includes name cache_name) (caches_keys s) = Some n"
    by (simp add: get_cache_storage_names_def Let_def)
  then show "str_includes n cache_name" and "n \<in> set (caches_keys s)"
    by (auto simp: find_Some_iff)
next
  assume "n \<noteq> cache_name"
  then show "n \<notin> set (caches_keys (activate_handler s))"
    by (simp add: caches_keys_activate)
next
  have "latestCacheName (get_cache_storage_names suffixed_platform) = Some ''web-app-cache-10''"
    by (simp add: get_cache_storage_names_def Let_def caches_keys_def suffixed_platform_def
        offline_platform_def cache_name_def)
  moreover have "''web-app-cache-10'' \<in> set (caches_keys suffixed_platform)"
    by (simp add: caches_keys_def suffixed_platform_def offline_platform_def)
  moreover have "''web-app-cache-10'' \<notin> set (caches_keys (activate_handler suffixed_platform))"
    by (simp add: caches_keys_activate cache_name_def)
  ultimately show "\<exists>s' n'. latestCacheName (get_cache_storage_names s') = Some n'
          \<and> n' \<in> set (caches_keys s') \<and> n' \<notin> set (caches_keys (activate_handler s'))"
    by blast
qed

theorem latest_cache_deleted_on_activate_witness:
  "latestCacheName (get_cache_storage_names suffixed_platform) = Some ''web-app-cache-10''
   \<and> str_includes ''web-app-cache-10'' cache_name
   \<and> ''web-app-cache-10'' \<noteq> cache_name
   \<and> caches_keys (activate_handler suffixed_platform) = []"
proof -
  have latest: "latestCacheName (get_cache_storage_names suffixed_platform) = Some ''web-app-cache-10''"
    by (simp add: get_cache_storage_names_def Let_def caches_keys_def suffixed_platform_def
        offline_platform_def cache_name_def)
  have other: "''web-app-cache-10'' \<noteq> cache_name"
    by (simp add: cache_name_def)
  have keys: "caches_keys suffixed_platform = [''web-app-cache-10'']"
    by (simp add: caches_keys_def suffixed_platform_def offline_platform_def)
  from latest_cache_deleted_on_activate [of suffixed_platform "''web-app-cache-10''"] latest other
  have inc: "str_includes ''web-app-cache-10'' cache_name"
    and deleted: "''web-app-cache-10'' \<notin> set (caches_keys (activate_handler suffixed_platform))"
    by blast+
  have "set (caches_keys (activate_handler suffixed_platform)) \<subseteq> set (caches_keys suffixed_platform)"
    by (auto simp: caches_keys_activate)
  with deleted have gone: "caches_keys (activate_handler suffixed_platform) = []"
    unfolding keys by (cases "caches_keys (activate_handler suffixed_platform)") auto
  from latest inc other gone show ?thesis by blast
qed
subsection \<open>The database\<close>

lemma request_store_other_fields:
  "request_store (s\<lparr>on_line := a\<rparr>) = request_store s"
  "request_store (s\<lparr>now := b\<rparr>) = request_store s"
  "request_store (s\<lparr>cache_storage := c\<rparr>) = request_store s"
  "request_store (s\<lparr>idb_up := d\<rparr>) = request_store s"
  "request_store (s\<lparr>sync_tags := e\<rparr>) = request_store s"
  "request_store (s\<lparr>clients := f\<rparr>) = request_store s"
  "request_store (s\<lparr>net_log := g\<rparr>) = request_store s"
  "request_store (s\<lparr>lifecycle_log := h\<rparr>) = request_store s"
  by (simp_all add: request_store_def)

lemma request_store_idb:
  "request_store (s\<lparr>idb := Has_store records\<rparr>) = records"
  "request_store (s\<lparr>idb := No_store\<rparr>) = []"
  "\<not> store_created s \<Longrightarrow> request_store s = []"
  by (simp_all add: request_store_def store_created_def split: database.splits)

lemma open_store_eq:
  "open_store s
     = (if \<not> idb_up s then (Fails, s)
        else if store_created s then (Settles (request_store s), s)
        else (Hangs, s\<lparr>idb := No_store\<rparr>))"
  by (cases s) (simp add: open_store_def store_created_def request_store_def split: database.splits)

lemma timestamp_make_record:
  "timestamp (make_record t req b) = t"
  by (simp add: make_record_def)




subsection \<open>Queueing while offline\<close>





lemma caches_match_url_net_log:
  "caches_match_url (s\<lparr>net_log := l\<rparr>) u = caches_match_url s u"
  by (simp add: caches_match_url_def)





subsection \<open>When the live fetch fails\<close>

lemma caches_match_url_None:
  "(caches_match_url s u = None) = (u \<notin> cached_urls s)"
proof -
  have "(find (\<lambda>(k, v). k = u) xs = None) = (u \<notin> set (map fst xs))" for xs :: "(string \<times> response) list"
    by (induction xs) auto
  then show ?thesis
    by (simp add: caches_match_url_def cached_urls_def)
qed

text \<open>
  C4, as the claim states it, fails twice: a fetch that throws while no cache holds
  \<open>/offline.html\<close> (the population at install failed, say) is answered with nothing,
  and a fetch that fulfils without a response leaves the handler's answer undefined
  although \<open>/offline.html\<close> is cached.
\<close>

theorem live_fetch_fallback_counterexample:
  "caches_match_request (offline_platform\<lparr>on_line := True, cache_storage := []\<rparr>) quiz_request
     = None
   \<and> fst (fetch_handler dead_network quiz_request
            (offline_platform\<lparr>on_line := True, cache_storage := []\<rparr>)) = Settles None
   \<and> caches_match_request (offline_platform\<lparr>on_line := True\<rparr>) quiz_request = None
   \<and> caches_match_url (offline_platform\<lparr>on_line := True\<rparr>) offline_url = Some offline_page
   \<and> fst (fetch_handler empty_network quiz_request (offline_platform\<lparr>on_line := True\<rparr>))
       = Settles None"
  by (simp add: fetch_handler_def fetch_def caches_match_request_def caches_match_url_def
      is_offline_def offline_platform_def quiz_request_def empty_network_def dead_network_def
      url_without_search_def offline_url_def)

text \<open>
  C4, amended. For a request that is not queued and has no cached match, if the live fetch
  throws, the handler answers with what the cache storage holds for \<open>/offline.html\<close>:
  the fallback document when some cache has it, and nothing only when none has.
\<close>

theorem fetch_handler_live_throws:
  assumes "\<not> (is_offline s \<and> is_request_eligible_for_retry req)"
    and "caches_match_request s req = None"
    and "net (length (net_log s)) (Live req) = Throws"
  shows "fst (fetch_handler net req s) = Settles (caches_match_url s offline_url)
    \<and> (fst (fetch_handler net req s) = Settles None) = (offline_url \<notin> cached_urls s)
    \<and> net_log (snd (fetch_handler net req s)) = net_log s @ [Live req]"
proof -
  from assms(1) have branch: "(is_offline s \<and> is_request_eligible_for_retry req) = False"
    by simp
  have answer: "fetch_handler net req s
      = (Settles (caches_match_url s offline_url), s\<lparr>net_log := net_log s @ [Live req]\<rparr>)"
    unfolding fetch_handler_def branch
    by (simp add: assms(2,3) fetch_def caches_match_url_net_log)
  show ?thesis
    by (simp add: answer caches_match_url_None)
qed

theorem fetch_handler_live_throws_witness:
  "\<not> (is_offline (offline_platform\<lparr>on_line := True\<rparr>) \<and> is_request_eligible_for_retry quiz_request)
   \<and> caches_match_request (offline_platform\<lparr>on_line := True\<rparr>) quiz_request = None
   \<and> dead_network (length (net_log (offline_platform\<lparr>on_line := True\<rparr>))) (Live quiz_request) = Throws
   \<and> fst (fetch_handler dead_network quiz_request (offline_platform\<lparr>on_line := True\<rparr>))
       = Settles (Some offline_page)"
proof -
  let ?s = "offline_platform\<lparr>on_line := True\<rparr>"
  have a: "\<not> (is_offline ?s \<and> is_request_eligible_for_retry quiz_request)"
    by (simp add: is_offline_def)
  have b: "caches_match_request ?s quiz_request = None"
    by (simp add: caches_match_request_def offline_platform_def quiz_request_def
        url_without_search_def offline_url_def)
  have c: "dead_network (length (net_log ?s)) (Live quiz_request) = Throws"
    by (simp add: dead_network_def)
  have page: "caches_match_url ?s offline_url = Some offline_page"
    by (simp add: caches_match_url_def offline_platform_def)
  from fetch_handler_live_throws [of "?s" quiz_request dead_network] page a b c
  show ?thesis by simp
qed
subsection \<open>Draining the queue\<close>

lemma issue_all_eq:
  "issue_all net cs s
     = (map (\<lambda>(k, c). net k c) (enumerate (length (net_log s)) cs),
        s\<lparr>net_log := net_log s @ cs\<rparr>)"
proof (induction cs arbitrary: s)
  case Nil
  then show ?case by simp
next
  case (Cons c cs)
  show ?case
    by (simp add: Cons.IH fetch_def)
qed

lemma delete_fulfilled_eq:
  "delete_fulfilled ps records
     = filter (\<lambda>r. timestamp r \<notin> set (map (timestamp \<circ> snd) (filter (fulfilled \<circ> fst) ps))) records"
proof (induction ps arbitrary: records)
  case Nil
  then show ?case by simp
next
  case (Cons p ps)
  obtain response r where p: "p = (response, r)"
    by (cases p)
  show ?case
    unfolding p by (auto simp: Cons.IH idb_delete_def intro: filter_cong)
qed

lemma filter_by_own_key:
  assumes "distinct (map key xs)"
  shows "filter (\<lambda>x. key x \<notin> key ` {y \<in> set xs. P y}) xs = filter (\<lambda>x. \<not> P x) xs"
proof (rule filter_cong [OF refl])
  fix x
  assume x: "x \<in> set xs"
  from assms have "inj_on key (set xs)"
    by (simp add: distinct_map)
  with x show "(key x \<notin> key ` {y \<in> set xs. P y}) = (\<not> P x)"
    by (auto dest: inj_onD)
qed

lemma delete_fulfilled_replays:
  assumes "distinct (map timestamp reqs)"
  shows "delete_fulfilled
           (zip (map (\<lambda>(k, c). net k c) (enumerate n (map (\<lambda>r. Replay (replay_of r)) reqs))) reqs)
           reqs
         = unsettled net n reqs"
proof -
  let ?E = "enumerate n reqs"
  let ?g = "\<lambda>(k, r). net k (Replay (replay_of r))"
  have outs: "map (\<lambda>(k, c). net k c) (enumerate n (map (\<lambda>r. Replay (replay_of r)) reqs)) = map ?g ?E"
    by (simp add: enumerate_eq_zip zip_map2 case_prod_unfold)
  have reqs: "reqs = map snd ?E"
    by simp
  have pairs: "zip (map ?g ?E) reqs = map (\<lambda>e. (?g e, snd e)) ?E"
    by (subst reqs) (simp only: zip_map_map, simp add: zip_same_conv_map)
  have keys: "set (map (timestamp \<circ> snd) (filter (fulfilled \<circ> fst) (map (\<lambda>e. (?g e, snd e)) ?E)))
      = (timestamp \<circ> snd) ` {e \<in> set ?E. fulfilled (?g e)}"
    by (auto simp: filter_map comp_def)
  have dist: "distinct (map (timestamp \<circ> snd) ?E)"
    using assms by (simp flip: map_map)
  define K where "K = (timestamp \<circ> snd) ` {e \<in> set ?E. fulfilled (?g e)}"
  have "delete_fulfilled (zip (map ?g ?E) reqs) reqs = filter (\<lambda>r. timestamp r \<notin> K) reqs"
    unfolding pairs delete_fulfilled_eq keys K_def by (rule refl)
  also have "\<dots> = filter (\<lambda>r. timestamp r \<notin> K) (map snd ?E)"
    by simp
  also have "\<dots> = map snd (filter (\<lambda>e. (timestamp \<circ> snd) e \<notin> K) ?E)"
    by (simp only: filter_map comp_def)
  also have "\<dots> = map snd (filter (\<lambda>e. \<not> fulfilled (?g e)) ?E)"
    unfolding K_def by (simp only: filter_by_own_key [OF dist])
  finally show ?thesis
    unfolding outs unsettled_def by (simp add: case_prod_unfold)
qed

lemma store_created_other_fields:
  "store_created (s\<lparr>net_log := g\<rparr>) = store_created s"
  "store_created (s\<lparr>idb := Has_store records\<rparr>)"
  by (simp_all add: store_created_def)

lemma get_requests_Some:
  "(fst (get_requests s) = Settles (Some reqs)) = (idb_up s \<and> idb s = Has_store reqs)"
  by (auto simp: get_requests_def open_store_def split: database.splits)

lemma get_requests_read:
  assumes "fst (get_requests s) = Settles (Some reqs)"
  shows "get_requests s = (Settles (Some reqs), s)" and "request_store s = reqs"
    and "idb_up s" and "store_created s"
  using assms
  by (auto simp: get_requests_def open_store_def request_store_def store_created_def
      split: database.splits if_splits)

lemma retry_requests_eq:
  assumes "fst (get_requests s) = Settles (Some reqs)" and "store_wf s"
  shows "retry_requests net s
     = (Settles (),
        s\<lparr>net_log := net_log s @ map (\<lambda>r. Replay (replay_of r)) reqs,
          idb := Has_store (unsettled net (length (net_log s)) reqs)\<rparr>)"
proof -
  note read = get_requests_read [OF assms(1)]
  from assms(2) have "distinct (map timestamp reqs)"
    by (simp add: store_wf_def read(2))
  from delete_fulfilled_replays [OF this, of net "length (net_log s)"] show ?thesis
    by (simp add: retry_requests_def read issue_all_eq open_store_eq
        store_created_other_fields request_store_other_fields)
qed


lemma set_unsettled:
  "set (unsettled net n reqs)
     = {reqs ! i |i. i < length reqs \<and> \<not> fulfilled (net (n + i) (Replay (replay_of (reqs ! i))))}"
  (is "?L = ?R")
proof (intro set_eqI iffI)
  fix r
  assume "r \<in> ?L"
  then obtain k where k: "n \<le> k" "k < n + length reqs" "r = reqs ! (k - n)"
    and nf: "\<not> fulfilled (net k (Replay (replay_of r)))"
    by (auto simp: unsettled_def in_set_enumerate_eq)
  from k have "k - n < length reqs" and "n + (k - n) = k"
    by simp_all
  with k(3) nf show "r \<in> ?R"
    by auto
next
  fix r
  assume "r \<in> ?R"
  then obtain i where i: "i < length reqs" "r = reqs ! i"
    and nf: "\<not> fulfilled (net (n + i) (Replay (replay_of r)))"
    by auto
  from i have "(n + i, r) \<in> set (enumerate n reqs)"
    by (simp add: in_set_enumerate_eq)
  with nf have "(n + i, r) \<in> set (filter (\<lambda>(k, r). \<not> fulfilled (net k (Replay (replay_of r)))) (enumerate n reqs))"
    by simp
  then show "r \<in> ?L"
    unfolding unsettled_def by force
qed

lemma in_unsettled:
  assumes "distinct (map timestamp reqs)" and "i < length reqs"
  shows "(reqs ! i \<in> set (unsettled net n reqs))
     = (\<not> fulfilled (net (n + i) (Replay (replay_of (reqs ! i)))))"
proof -
  from assms(1) have "distinct reqs"
    by (simp add: distinct_map)
  with assms(2) show ?thesis
    by (auto simp: set_unsettled nth_eq_iff_index_eq)
qed

lemma unsettled_subset:
  "set (unsettled net n reqs) \<subseteq> set reqs"
  by (auto simp: set_unsettled)

lemma distinct_unsettled:
  assumes "distinct (map timestamp reqs)"
  shows "distinct (map timestamp (unsettled net n reqs))"
proof -
  from assms have "distinct (map (timestamp \<circ> snd) (enumerate n reqs))"
    by (simp flip: map_map)
  then have "distinct (map (timestamp \<circ> snd)
      (filter (\<lambda>(k, r). \<not> fulfilled (net k (Replay (replay_of r)))) (enumerate n reqs)))"
    by (rule distinct_map_filter)
  then show ?thesis
    by (simp add: unsettled_def)
qed

lemma key_not_in_unsettled:
  assumes "distinct (map timestamp reqs)" and "i < length reqs"
    and "fulfilled (net (n + i) (Replay (replay_of (reqs ! i))))"
  shows "timestamp (reqs ! i) \<notin> set (map timestamp (unsettled net n reqs))"
proof
  assume "timestamp (reqs ! i) \<in> set (map timestamp (unsettled net n reqs))"
  then obtain r where r: "r \<in> set (unsettled net n reqs)" and same: "timestamp r = timestamp (reqs ! i)"
    by auto
  from r have "r \<in> set reqs"
    using unsettled_subset by blast
  moreover from assms(2) have "reqs ! i \<in> set reqs"
    by simp
  moreover from assms(1) have "inj_on timestamp (set reqs)"
    by (simp add: distinct_map)
  ultimately have "r = reqs ! i"
    using same by (auto dest: inj_onD)
  with r assms show False
    by (simp add: in_unsettled)
qed

text \<open>
  C2. A drain that reads the records \<open>reqs\<close> from the store issues one replay per
  record, in order, whose url, method, headers, body, mode and credentials are those of
  the record; its promise fulfils whatever the replays do; a record stays in the store
  exactly when its own replay did not fulfil, and the others are deleted. The records are
  keyed by distinct timestamps (\<open>store_wf\<close>).
\<close>

theorem retry_requests_drains:
  assumes "fst (get_requests s) = Settles (Some reqs)" and "store_wf s"
  shows "fst (retry_requests net s) = Settles ()
    \<and> net_log (snd (retry_requests net s))
        = net_log s @
          map (\<lambda>r. Replay \<lparr>init_url = stored_url r, init_method = stored_method r,
                           init_headers = stored_headers r, init_body = stored_body r,
                           init_mode = stored_mode r,
                           init_credentials = stored_credentials r\<rparr>) reqs
    \<and> request_store (snd (retry_requests net s)) = unsettled net (length (net_log s)) reqs
    \<and> (\<forall>i < length reqs.
          (reqs ! i \<in> set (request_store (snd (retry_requests net s))))
            = (\<not> fulfilled (net (length (net_log s) + i) (Replay (replay_of (reqs ! i))))))
    \<and> set (request_store (snd (retry_requests net s))) \<subseteq> set reqs
    \<and> reqs = request_store s"
proof -
  let ?s' = "snd (retry_requests net s)"
  note read = get_requests_read [OF assms(1)]
  from assms(2) have dist: "distinct (map timestamp reqs)"
    by (simp add: store_wf_def read(2))
  have store: "request_store ?s' = unsettled net (length (net_log s)) reqs"
    by (simp add: retry_requests_eq [OF assms] request_store_idb)
  have each: "\<forall>i < length reqs.
      (reqs ! i \<in> set (request_store ?s'))
        = (\<not> fulfilled (net (length (net_log s) + i) (Replay (replay_of (reqs ! i)))))"
    by (simp add: store in_unsettled [OF dist])
  have sub: "set (request_store ?s') \<subseteq> set reqs"
    by (simp add: store unsettled_subset)
  have fields: "net_log ?s' = net_log s @
          map (\<lambda>r. Replay \<lparr>init_url = stored_url r, init_method = stored_method r,
                           init_headers = stored_headers r, init_body = stored_body r,
                           init_mode = stored_mode r,
                           init_credentials = stored_credentials r\<rparr>) reqs"
    by (simp add: retry_requests_eq [OF assms] replay_of_def)
  have "fst (retry_requests net s) = Settles ()"
    by (simp add: retry_requests_eq [OF assms])
  with fields store each sub read(2) show ?thesis
    by blast
qed

theorem retry_requests_drains_witness:
  "fst (get_requests queued_platform)
     = Settles (Some [make_record 1000 submit_request (Some ''answer=42''),
                      make_record 2000 vote_request None])
   \<and> store_wf queued_platform
   \<and> recovering_network 0 (Replay (replay_of (make_record 1000 submit_request (Some ''answer=42'')))) = Throws
   \<and> fulfilled (recovering_network 1 (Replay (replay_of (make_record 2000 vote_request None))))
   \<and> fst (retry_requests recovering_network queued_platform) = Settles ()
   \<and> net_log (snd (retry_requests recovering_network queued_platform))
       = [Replay \<lparr>init_url = ''/submit'', init_method = ''POST'',
                   init_headers = [(''content-type'', ''text/plain'')],
                   init_body = Some ''answer=42'', init_mode = ''cors'',
                   init_credentials = ''same-origin''\<rparr>,
          Replay \<lparr>init_url = ''/vote'', init_method = ''PUT'', init_headers = [],
                   init_body = None, init_mode = ''cors'',
                   init_credentials = ''same-origin''\<rparr>]
   \<and> request_store (snd (retry_requests recovering_network queued_platform))
       = [make_record 1000 submit_request (Some ''answer=42'')]"
proof -
  let ?r1 = "make_record 1000 submit_request (Some ''answer=42'')"
  let ?r2 = "make_record 2000 vote_request None"
  have reqs: "fst (get_requests queued_platform) = Settles (Some [?r1, ?r2])"
    by (simp add: get_requests_Some queued_platform_def offline_platform_def)
  have wf: "store_wf queued_platform"
    by (simp add: store_wf_def request_store_def queued_platform_def timestamp_make_record)
  have log: "net_log queued_platform = []"
    by (simp add: queued_platform_def offline_platform_def)
  have r1: "stored_url ?r1 = ''/submit''" "stored_method ?r1 = ''POST''"
    "stored_headers ?r1 = [(''content-type'', ''text/plain'')]"
    "stored_body ?r1 = Some ''answer=42''" "stored_mode ?r1 = ''cors''"
    "stored_credentials ?r1 = ''same-origin''"
    by (simp_all add: make_record_def submit_request_def serialize_headers_def)
  have r2: "stored_url ?r2 = ''/vote''" "stored_method ?r2 = ''PUT''"
    "stored_headers ?r2 = []" "stored_body ?r2 = None" "stored_mode ?r2 = ''cors''"
    "stored_credentials ?r2 = ''same-origin''"
    by (simp_all add: make_record_def vote_request_def serialize_headers_def)
  have first: "recovering_network 0 c = Throws" for c
    by (simp add: recovering_network_def)
  have second: "fulfilled (recovering_network 1 c)" for c
    by (simp add: recovering_network_def fulfilled_def)
  from retry_requests_drains [OF reqs wf, of recovering_network]
  have drained: "fst (retry_requests recovering_network queued_platform) = Settles ()"
    "net_log (snd (retry_requests recovering_network queued_platform))
       = [Replay \<lparr>init_url = ''/submit'', init_method = ''POST'',
                   init_headers = [(''content-type'', ''text/plain'')],
                   init_body = Some ''answer=42'', init_mode = ''cors'',
                   init_credentials = ''same-origin''\<rparr>,
          Replay \<lparr>init_url = ''/vote'', init_method = ''PUT'', init_headers = [],
                   init_body = None, init_mode = ''cors'',
                   init_credentials = ''same-origin''\<rparr>]"
    and left: "request_store (snd (retry_requests recovering_network queued_platform))
       = unsettled recovering_network 0 [?r1, ?r2]"
    by (simp_all add: log r1 r2)
  have "unsettled recovering_network 0 [?r1, ?r2] = [?r1]"
    by (simp add: unsettled_def recovering_network_def fulfilled_def)
  with left have "request_store (snd (retry_requests recovering_network queued_platform)) = [?r1]"
    by simp
  with reqs wf first second drained show ?thesis
    by blast
qed

text \<open>
  C9. A record whose replay promise fulfils is deleted whatever the response is, a 4xx or
  5xx answer included: after the drain no record has its key, and the next drain replays
  only what the store then holds.
\<close>

theorem retry_requests_deletes_any_fulfilled:
  assumes "fst (get_requests s) = Settles (Some reqs)" and "store_wf s" and "i < length reqs"
    and "net (length (net_log s) + i) (Replay (replay_of (reqs ! i))) = Resolves answer"
  shows "timestamp (reqs ! i) \<notin> set (map timestamp (request_store (snd (retry_requests net s))))
    \<and> reqs ! i \<notin> set (request_store (snd (retry_requests net s)))
    \<and> net_log (snd (retry_requests net' (snd (retry_requests net s))))
        = net_log (snd (retry_requests net s))
          @ map (\<lambda>r. Replay (replay_of r)) (request_store (snd (retry_requests net s)))"
proof -
  let ?s' = "snd (retry_requests net s)"
  note read = get_requests_read [OF assms(1)]
  from assms(2) have dist: "distinct (map timestamp reqs)"
    by (simp add: store_wf_def read(2))
  from assms(4) have ful: "fulfilled (net (length (net_log s) + i) (Replay (replay_of (reqs ! i))))"
    by (simp add: fulfilled_def)
  have store: "request_store ?s' = unsettled net (length (net_log s)) reqs"
    by (simp add: retry_requests_eq [OF assms(1,2)] request_store_idb)
  have key: "timestamp (reqs ! i) \<notin> set (map timestamp (request_store ?s'))"
    unfolding store using dist assms(3) ful by (rule key_not_in_unsettled)
  then have gone: "reqs ! i \<notin> set (request_store ?s')"
    by auto
  have reqs': "fst (get_requests ?s') = Settles (Some (request_store ?s'))"
    by (simp add: retry_requests_eq [OF assms(1,2)] get_requests_Some read(3) request_store_idb)
  have wf': "store_wf ?s'"
    unfolding store_wf_def store by (rule distinct_unsettled [OF dist])
  have "net_log (snd (retry_requests net' ?s'))
      = net_log ?s' @ map (\<lambda>r. Replay (replay_of r)) (request_store ?s')"
    by (simp add: retry_requests_eq [OF reqs' wf'])
  with key gone show ?thesis
    by blast
qed

theorem retry_requests_deletes_any_fulfilled_witness:
  "flaky_network 1 (Replay (replay_of (make_record 2000 vote_request None)))
     = Resolves (Some server_error)
   \<and> status server_error = 500
   \<and> request_store (snd (retry_requests flaky_network queued_platform))
       = [make_record 1000 submit_request (Some ''answer=42'')]
   \<and> 2000 \<notin> set (map timestamp (request_store (snd (retry_requests flaky_network queued_platform))))
   \<and> net_log (snd (retry_requests dead_network (snd (retry_requests flaky_network queued_platform))))
       = [Replay (replay_of (make_record 1000 submit_request (Some ''answer=42''))),
          Replay (replay_of (make_record 2000 vote_request None)),
          Replay (replay_of (make_record 1000 submit_request (Some ''answer=42'')))]"
proof -
  let ?r1 = "make_record 1000 submit_request (Some ''answer=42'')"
  let ?r2 = "make_record 2000 vote_request None"
  have reqs: "fst (get_requests queued_platform) = Settles (Some [?r1, ?r2])"
    by (simp add: get_requests_Some queued_platform_def offline_platform_def)
  have wf: "store_wf queued_platform"
    by (simp add: store_wf_def request_store_def queued_platform_def timestamp_make_record)
  have log: "net_log queued_platform = []"
    by (simp add: queued_platform_def offline_platform_def)
  have answer: "flaky_network (length (net_log queued_platform) + 1) (Replay (replay_of ([?r1, ?r2] ! 1)))
      = Resolves (Some server_error)"
    by (simp add: flaky_network_def)
  have run: "retry_requests flaky_network queued_platform
      = (Settles (), queued_platform\<lparr>net_log := [Replay (replay_of ?r1), Replay (replay_of ?r2)],
                      idb := Has_store [?r1]\<rparr>)"
    by (simp add: retry_requests_eq [OF reqs wf] log unsettled_def flaky_network_def fulfilled_def)
  from retry_requests_deletes_any_fulfilled
    [of queued_platform "[?r1, ?r2]" 1 flaky_network "Some server_error" dead_network]
    reqs wf answer
  show ?thesis
    by (simp add: run flaky_network_def server_error_def timestamp_make_record request_store_idb)
qed
subsection \<open>Migrating the current snapshot forward\<close>

lemma map_of_filter_other:
  "map_of (filter (\<lambda>(k, v). k \<noteq> u) c) u' = (if u' = u then None else map_of c u')"
  by (induction c) auto

lemma map_of_put_entry:
  "map_of (put_entry u r c) u' = (if u' = u then Some r else map_of c u')"
  by (simp add: put_entry_def map_of_append map_add_def map_of_filter_other split: option.splits)

lemma map_of_map_named:
  "map_of (map (\<lambda>(n, c). if n = N then (n, f c) else (n, c)) st) name
     = (if name = N then map_option f (map_of st name) else map_of st name)"
  by (induction st) auto

lemma caches_keys_cache_put:
  "caches_keys (cache_put N u r s) = caches_keys s"
  by (simp add: caches_keys_def cache_put_def comp_def case_prod_unfold)

lemma cache_match_cache_put:
  "cache_match (cache_put N u r s) name u'
     = (if name = N \<and> N \<in> set (caches_keys s) \<and> u' = u then Some r else cache_match s name u')"
proof (cases "name = N \<and> N \<in> set (caches_keys s)")
  case True
  then have "map_of (cache_storage s) N \<noteq> None"
    by (simp add: caches_keys_def map_of_eq_None_iff)
  then obtain c where c: "map_of (cache_storage s) N = Some c"
    by blast
  with True show ?thesis
    by (simp add: cache_match_def cache_of_def cache_put_def map_of_map_named map_of_put_entry)
next
  case False
  then have "name \<noteq> N \<or> map_of (cache_storage s) N = None"
    by (auto simp: caches_keys_def map_of_eq_None_iff)
  then show ?thesis
    using False by (auto simp: cache_match_def cache_of_def cache_put_def map_of_map_named)
qed

lemma caches_open_existing:
  "name \<in> set (caches_keys s) \<Longrightarrow> caches_open name s = s"
  by (simp add: caches_open_def)

lemma copy_entries_eq:
  assumes "latest \<noteq> outdated" and "outdated \<in> set (caches_keys s)"
    and "\<forall>e \<in> set entries. cache_match s latest e \<noteq> None"
  shows "\<exists>s'. copy_entries latest outdated entries s = (Fulfilled, s')
      \<and> caches_keys s' = caches_keys s
      \<and> (\<forall>name u. cache_match s' name u
            = (if name = outdated \<and> u \<in> set entries then cache_match s latest u
               else cache_match s name u))"
  using assms
proof (induction entries arbitrary: s)
  case Nil
  then show ?case by simp
next
  case (Cons e es)
  from Cons.prems(3) obtain r where r: "cache_match s latest e = Some r"
    by auto
  let ?s1 = "cache_put outdated e r s"
  have keys1: "caches_keys ?s1 = caches_keys s"
    by (rule caches_keys_cache_put)
  have latest1: "cache_match ?s1 latest u = cache_match s latest u" for u
    using Cons.prems(1) by (simp add: cache_match_cache_put)
  from Cons.prems have "\<forall>e' \<in> set es. cache_match ?s1 latest e' \<noteq> None"
    by (simp add: latest1)
  with Cons.prems(1,2) keys1 have "\<exists>s'. copy_entries latest outdated es ?s1 = (Fulfilled, s')
      \<and> caches_keys s' = caches_keys ?s1
      \<and> (\<forall>name u. cache_match s' name u
            = (if name = outdated \<and> u \<in> set es then cache_match ?s1 latest u
               else cache_match ?s1 name u))"
    by (intro Cons.IH) simp_all
  then obtain s' where s': "copy_entries latest outdated es ?s1 = (Fulfilled, s')"
    "caches_keys s' = caches_keys ?s1"
    "\<And>name u. cache_match s' name u
            = (if name = outdated \<and> u \<in> set es then cache_match ?s1 latest u
               else cache_match ?s1 name u)"
    by blast
  have "copy_entries latest outdated (e # es) s = (Fulfilled, s')"
    by (simp add: r s'(1))
  moreover have "caches_keys s' = caches_keys s"
    by (simp add: s'(2) keys1)
  moreover have "cache_match s' name u
      = (if name = outdated \<and> u \<in> set (e # es) then cache_match s latest u
         else cache_match s name u)" for name u
    using Cons.prems(2) r by (auto simp: s'(3) latest1 cache_match_cache_put)
  ultimately show ?case
    by blast
qed

lemma copy_to_outdated_eq:
  assumes "latest \<notin> set names" and "set names \<subseteq> set (caches_keys s)"
    and "\<forall>e \<in> set entries. cache_match s latest e \<noteq> None"
  shows "\<exists>s'. copy_to_outdated latest names entries s = (Fulfilled, s')
      \<and> caches_keys s' = caches_keys s
      \<and> (\<forall>name u. cache_match s' name u
            = (if name \<in> set names \<and> u \<in> set entries then cache_match s latest u
               else cache_match s name u))"
  using assms
proof (induction names arbitrary: s)
  case Nil
  then show ?case by simp
next
  case (Cons n ns)
  from Cons.prems have n: "latest \<noteq> n" "n \<in> set (caches_keys s)"
    by auto
  from copy_entries_eq [OF n Cons.prems(3)]
  obtain s1 where s1: "copy_entries latest n entries s = (Fulfilled, s1)"
    "caches_keys s1 = caches_keys s"
    "\<And>name u. cache_match s1 name u
            = (if name = n \<and> u \<in> set entries then cache_match s latest u
               else cache_match s name u)"
    by blast
  have latest1: "cache_match s1 latest u = cache_match s latest u" for u
    using n(1) by (simp add: s1(3))
  from Cons.prems have "latest \<notin> set ns" "set ns \<subseteq> set (caches_keys s1)"
    "\<forall>e \<in> set entries. cache_match s1 latest e \<noteq> None"
    by (simp_all add: s1(2) latest1)
  from Cons.IH [OF this]
  obtain s' where s': "copy_to_outdated latest ns entries s1 = (Fulfilled, s')"
    "caches_keys s' = caches_keys s1"
    "\<And>name u. cache_match s' name u
            = (if name \<in> set ns \<and> u \<in> set entries then cache_match s1 latest u
               else cache_match s1 name u)"
    by blast
  have "copy_to_outdated latest (n # ns) entries s = (Fulfilled, s')"
    by (simp add: caches_open_existing [OF n(2)] s1(1) s'(1))
  moreover have "caches_keys s' = caches_keys s"
    by (simp add: s'(2) s1(2))
  moreover have "cache_match s' name u
      = (if name \<in> set (n # ns) \<and> u \<in> set entries then cache_match s latest u
         else cache_match s name u)" for name u
    by (auto simp: s'(3) s1(3) latest1)
  ultimately show ?case
    by blast
qed

lemma str_includes_Nil:
  "str_includes [] cache_name = False"
  by (simp add: cache_name_def)

lemma cache_keys_match:
  "(u \<in> set (cache_keys s name)) = (cache_match s name u \<noteq> None)"
  by (simp add: cache_keys_def cache_match_def map_of_eq_None_iff)

text \<open>
  C6. \<open>update_last_cache\<close> never rejects and creates or deletes no snapshot. When there is
  a current snapshot (the first whose name contains \<open>cache_name\<close>), every outdated snapshot
  afterwards answers a URL with the current snapshot's entry when it has one, and with its
  own entry otherwise; every other snapshot is as before. Without a current snapshot, or
  without outdated ones, nothing changes.
\<close>

theorem update_last_cache_migrates:
  "fst (update_last_cache s) = Fulfilled
   \<and> caches_keys (snd (update_last_cache s)) = caches_keys s
   \<and> (latestCacheName (get_cache_storage_names s) = None
        \<or> outdatedCacheNames (get_cache_storage_names s) = []
      \<longrightarrow> snd (update_last_cache s) = s)
   \<and> (\<forall>latest name u. latestCacheName (get_cache_storage_names s) = Some latest \<longrightarrow>
        cache_match (snd (update_last_cache s)) name u
          = (if name \<in> set (outdatedCacheNames (get_cache_storage_names s))
             then (case cache_match s latest u of
                     Some r \<Rightarrow> Some r
                   | None \<Rightarrow> cache_match s name u)
             else cache_match s name u))"
proof (cases "latestCacheName (get_cache_storage_names s)")
  case None
  then have "update_last_cache s = (Fulfilled, s)"
    by (simp add: update_last_cache_def Let_def)
  with None show ?thesis
    by simp
next
  case (Some latest)
  let ?outdated = "outdatedCacheNames (get_cache_storage_names s)"
  from Some have found: "find (\<lambda>name. str_includes name cache_name) (caches_keys s) = Some latest"
    by (simp add: get_cache_storage_names_def Let_def)
  then have inc: "str_includes latest cache_name" and mem: "latest \<in> set (caches_keys s)"
    by (auto simp: find_Some_iff)
  from inc have nonempty: "latest \<noteq> []"
    using str_includes_Nil by auto
  have outdated: "?outdated = filter (\<lambda>name. \<not> str_includes name cache_name) (caches_keys s)"
    by (simp add: get_cache_storage_names_def Let_def)
  show ?thesis
  proof (cases "?outdated = []")
    case True
    with Some have "update_last_cache s = (Fulfilled, s)"
      by (simp add: update_last_cache_def Let_def)
    with Some True show ?thesis
      by simp
  next
    case False
    have run: "update_last_cache s
        = copy_to_outdated latest ?outdated (cache_keys s latest) s"
      using Some False nonempty
      by (simp add: update_last_cache_def Let_def caches_open_existing [OF mem])
    have "latest \<notin> set ?outdated" and "set ?outdated \<subseteq> set (caches_keys s)"
      using inc by (auto simp: outdated)
    moreover have "\<forall>e \<in> set (cache_keys s latest). cache_match s latest e \<noteq> None"
      by (simp add: cache_keys_match)
    ultimately obtain s' where s': "copy_to_outdated latest ?outdated (cache_keys s latest) s = (Fulfilled, s')"
      "caches_keys s' = caches_keys s"
      "\<And>name u. cache_match s' name u
            = (if name \<in> set ?outdated \<and> u \<in> set (cache_keys s latest) then cache_match s latest u
               else cache_match s name u)"
      using copy_to_outdated_eq [of latest ?outdated s "cache_keys s latest"] by blast
    have "cache_match s' name u
          = (if name \<in> set ?outdated
             then (case cache_match s latest u of
                     Some r \<Rightarrow> Some r
                   | None \<Rightarrow> cache_match s name u)
             else cache_match s name u)" for name u
      by (auto simp: s'(3) cache_keys_match split: option.splits)
    with Some False s'(1,2) show ?thesis
      by (simp add: run)
  qed
qed

theorem update_last_cache_migrates_witness:
  "latestCacheName (get_cache_storage_names migrating_platform) = Some cache_name
   \<and> outdatedCacheNames (get_cache_storage_names migrating_platform) = [''web-app-cache-0'']
   \<and> cache_match migrating_platform ''web-app-cache-0'' ''/index.html'' = Some stale_index
   \<and> cache_match (snd (update_last_cache migrating_platform)) ''web-app-cache-0'' ''/index.html''
       = Some fresh_index
   \<and> cache_match (snd (update_last_cache migrating_platform)) ''web-app-cache-0'' ''/about''
       = Some about_page
   \<and> cache_match (snd (update_last_cache migrating_platform)) ''web-app-cache-0'' ''/old.css''
       = Some old_style
   \<and> cache_match (snd (update_last_cache migrating_platform)) cache_name ''/index.html''
       = Some fresh_index
   \<and> cache_match (snd (update_last_cache migrating_platform)) cache_name ''/old.css'' = None
   \<and> outdatedCacheNames (get_cache_storage_names offline_platform) = []
   \<and> snd (update_last_cache offline_platform) = offline_platform"
proof -
  have alone: "outdatedCacheNames (get_cache_storage_names offline_platform) = []"
    by (simp add: get_cache_storage_names_def Let_def caches_keys_def offline_platform_def
        cache_name_def)
  with update_last_cache_migrates [of offline_platform]
  have noop: "snd (update_last_cache offline_platform) = offline_platform"
    by blast
  have names: "latestCacheName (get_cache_storage_names migrating_platform) = Some cache_name"
    "outdatedCacheNames (get_cache_storage_names migrating_platform) = [''web-app-cache-0'']"
    by (simp_all add: get_cache_storage_names_def Let_def caches_keys_def migrating_platform_def
        cache_name_def)
  have before: "cache_match migrating_platform ''web-app-cache-0'' ''/index.html'' = Some stale_index"
    "cache_match migrating_platform ''web-app-cache-0'' ''/about'' = None"
    "cache_match migrating_platform ''web-app-cache-0'' ''/old.css'' = Some old_style"
    "cache_match migrating_platform cache_name ''/index.html'' = Some fresh_index"
    "cache_match migrating_platform cache_name ''/about'' = Some about_page"
    "cache_match migrating_platform cache_name ''/old.css'' = None"
    by (simp_all add: cache_match_def cache_of_def migrating_platform_def cache_name_def)
  have other: "cache_name \<noteq> ''web-app-cache-0''"
    by (simp add: cache_name_def)
  from update_last_cache_migrates [of migrating_platform] names
  have after: "cache_match (snd (update_last_cache migrating_platform)) name u
          = (if name = ''web-app-cache-0''
             then (case cache_match migrating_platform cache_name u of
                     Some r \<Rightarrow> Some r
                   | None \<Rightarrow> cache_match migrating_platform name u)
             else cache_match migrating_platform name u)" for name u
    by simp
  show ?thesis
    by (simp add: names after before other alone noop)
qed
subsection \<open>Installation\<close>

lemma caches_keys_put_all:
  "caches_keys (put_all name ps s) = caches_keys s"
  by (induction name ps s rule: put_all.induct)
    (auto simp: caches_keys_cache_put split: fetch_outcome.splits option.splits)












subsection \<open>The life of a queued record\<close>
























end
